theory Spec2Isabelle
  imports Complex_Main
begin

section \<open>Outcomes, errors and observable effects\<close>

text \<open>
  The module \<open>client/client.py\<close> is asynchronous Python. A call is modelled for one
  caller running alone: the critical section of a lock is the body of the function, and a
  coroutine either returns, raises, or never returns. The values read from
  \<open>time.monotonic()\<close> are parameters of the model, and every effect on a collaborator
  (the clock, the sleeping primitive, the logger, the HTTP session, the cache) is recorded
  in a trace of events, in program order.

  Python floats are modelled by the reals: rounding is not represented.
\<close>

datatype error =
    ZeroDivisionError
  | ValueError
  | AttributeError
  | RuntimeError string
  | RecursionError
  | ResponseNotRead
  | HTTPStatusError
  | RequestError
  | OtherException string

datatype 'a outcome = Return 'a | Raise error | Hang

datatype event =
    Monotonic real
  | LogDebug real
  | Sleep real
  | SessionGet string
  | AdjustRateLimit "(string \<times> string) list"
  | LimitRequest int
  | RaiseForStatus
  | LogError string
  | LogHTTPError int string
  | Await string
  | ContainsEncoded string
  | FetchEncoded string
  | RequestFunc
  | StoreEncoded string

section \<open>RateLimitContext\<close>

text \<open>
  The fields \<open>_max_calls\<close>, \<open>_rate\<close>, \<open>_tokens\<close>, \<open>_last\<close> and the value of
  \<open>_semaphore\<close>. The lock is always free when a lone caller asks for it and is not a field.
\<close>

record RateLimitContext =
  max_calls :: int
  rate :: real
  tokens :: real
  last_time :: real
  semaphore :: int

text \<open>
  \<open>__init__\<close>: the true division \<open>max_calls / period\<close> raises when \<open>period\<close> is zero,
  and \<open>asyncio.Semaphore\<close> raises \<open>ValueError\<close> on a negative initial value. Nothing
  else is checked. \<open>now\<close> is the reading of the clock taken by the constructor.
\<close>

definition RateLimitContext_init ::
  "int \<Rightarrow> int \<Rightarrow> int \<Rightarrow> real \<Rightarrow> RateLimitContext outcome" where
  "RateLimitContext_init max_calls' period max_concurrency now =
     (if period = 0 then Raise ZeroDivisionError
      else if max_concurrency < 0 then Raise ValueError
      else Return \<lparr>max_calls = max_calls',
                   rate = of_int max_calls' / of_int period,
                   tokens = of_int max_calls',
                   last_time = now,
                   semaphore = max_concurrency\<rparr>)"

definition set_used_tokens :: "RateLimitContext \<Rightarrow> int \<Rightarrow> RateLimitContext" where
  "set_used_tokens s used = s\<lparr>tokens := of_int (max_calls s) - of_int used\<rparr>"

text \<open>
  \<open>_acquire_token\<close>, statement by statement. \<open>t1\<close> and \<open>t2\<close> are what the first and the
  second call of \<open>time.monotonic()\<close> return; the second is read only after the sleep.
  The float division of the logging line raises when the rate is zero, after the
  first refill has been written to the object.
\<close>

definition acquire_token ::
  "RateLimitContext \<Rightarrow> int \<Rightarrow> real \<Rightarrow> real \<Rightarrow> unit outcome \<times> RateLimitContext \<times> event list" where
  "acquire_token s weight t1 t2 =
     (let now = t1;
          elapsed = now - last_time s;
          s1 = s\<lparr>last_time := now\<rparr>;
          s2 = s1\<lparr>tokens := min (tokens s1 + elapsed * rate s1) (of_int (max_calls s1))\<rparr>;
          required_tokens = of_int weight
      in if tokens s2 < required_tokens then
           (if rate s2 = 0 then (Raise ZeroDivisionError, s2, [Monotonic t1])
            else
              let d = (required_tokens - tokens s2) / rate s2;
                  now' = t2;
                  elapsed' = now' - last_time s2;
                  s3 = s2\<lparr>last_time := now'\<rparr>;
                  s4 = s3\<lparr>tokens := min (tokens s3 + elapsed' * rate s3) (of_int (max_calls s3))\<rparr>
              in (Return (), s4\<lparr>tokens := tokens s4 - required_tokens\<rparr>,
                  [Monotonic t1, LogDebug d, Sleep d, Monotonic t2]))
         else (Return (), s2\<lparr>tokens := tokens s2 - required_tokens\<rparr>, [Monotonic t1]))"



subsection \<open>The token bucket as the specification words it\<close>

text \<open>
  The refill step and the acquisition as the specification describes them: the balance is
  raised by \<open>elapsed * refillRate\<close> and clamped to the capacity, the refill time is
  set to the reading; a balance below the weight suspends the caller for
  \<open>(weight - tokens) / refillRate\<close> seconds and refills once more; then the weight is
  debited.
\<close>

definition spec_refill :: "RateLimitContext \<Rightarrow> real \<Rightarrow> RateLimitContext" where
  "spec_refill s now =
     s\<lparr>tokens := min (of_int (max_calls s)) (tokens s + (now - last_time s) * rate s),
       last_time := now\<rparr>"

definition spec_debit :: "RateLimitContext \<Rightarrow> int \<Rightarrow> RateLimitContext" where
  "spec_debit s weight = s\<lparr>tokens := tokens s - of_int weight\<rparr>"

definition spec_acquire :: "RateLimitContext \<Rightarrow> int \<Rightarrow> real \<Rightarrow> real \<Rightarrow> RateLimitContext" where
  "spec_acquire s weight t1 t2 =
     (if tokens (spec_refill s t1) < of_int weight
      then spec_debit (spec_refill (spec_refill s t1) t2) weight
      else spec_debit (spec_refill s t1) weight)"

definition spec_suspensions :: "RateLimitContext \<Rightarrow> int \<Rightarrow> real \<Rightarrow> real list" where
  "spec_suspensions s weight t1 =
     (if tokens (spec_refill s t1) < of_int weight
      then [(of_int weight - tokens (spec_refill s t1)) / rate s]
      else [])"

fun suspensions :: "event list \<Rightarrow> real list" where
  "suspensions [] = []"
| "suspensions (Sleep d # es) = d # suspensions es"
| "suspensions (e # es) = suspensions es"

fun clock_reads :: "event list \<Rightarrow> real list" where
  "clock_reads [] = []"
| "clock_reads (Monotonic t # es) = t # clock_reads es"
| "clock_reads (e # es) = clock_reads es"

subsection \<open>Sequences of calls on one gate\<close>

datatype call = Acquire int real real | SetUsedTokens int

definition bucket_inv :: "RateLimitContext \<Rightarrow> bool" where
  "bucket_inv s = (0 \<le> tokens s \<and> tokens s \<le> of_int (max_calls s))"

fun run :: "RateLimitContext \<Rightarrow> call list \<Rightarrow> unit outcome \<times> RateLimitContext" where
  "run s [] = (Return (), s)"
| "run s (Acquire w t1 t2 # cs) =
     (case acquire_token s w t1 t2 of
        (Return u, s', evs) \<Rightarrow> run s' cs
      | (r, s', evs) \<Rightarrow> (r, s'))"
| "run s (SetUsedTokens used # cs) = run (set_used_tokens s used) cs"

text \<open>
  The arguments the invariant is stated for, against a capacity, and whether a call
  suspends the caller: an acquisition does when its trace has a sleep.
\<close>

fun call_ok :: "int \<Rightarrow> call \<Rightarrow> bool" where
  "call_ok cap (Acquire w t1 t2) = (0 \<le> w \<and> w \<le> cap)"
| "call_ok cap (SetUsedTokens used) = (0 \<le> used \<and> used \<le> cap)"

fun sleeps :: "RateLimitContext \<Rightarrow> call \<Rightarrow> bool" where
  "sleeps s (Acquire w t1 t2) = (suspensions (snd (snd (acquire_token s w t1 t2))) \<noteq> [])"
| "sleeps s (SetUsedTokens used) = False"

section \<open>AsyncClient\<close>

text \<open>
  A response as far as the module reads it, and the client: the base URL and the attached
  rate limiter (\<open>None\<close> by default). \<open>body_text\<close> is \<open>None\<close> for a response whose body
  has not been read; reading \<open>.text\<close> of such a response raises \<open>ResponseNotRead\<close>. The HTTP session is a collaborator: what
  \<open>self._session.get(url)\<close> does is the parameter \<open>session_get\<close>, and what
  \<open>response.raise_for_status()\<close> does is the parameter \<open>raise_for_status\<close>
  (\<open>None\<close> when it returns, the exception when it raises).
\<close>

record response =
  status_code :: int
  headers :: "(string \<times> string) list"
  body_text :: "string option"

record AsyncClient =
  base_url :: string
  rate_limit_context :: "RateLimitContext option"

definition AsyncClient_init :: "string \<Rightarrow> RateLimitContext option \<Rightarrow> AsyncClient" where
  "AsyncClient_init url limiter =
     \<lparr>base_url = (if url \<noteq> [] \<and> last url = CHR ''/'' then butlast url else url),
      rate_limit_context = limiter\<rparr>"

text \<open>
  \<open>_handle\<close>: the three \<open>except\<close> clauses are tried in the order of the source; the
  last one takes every other exception. Each clause logs and falls through to the final
  \<open>return response\<close>. The first clause builds its line from \<open>e.response.status_code\<close>
  and \<open>e.response.text\<close>, where \<open>e.response\<close> is the response itself; an exception
  raised while the line is built is raised inside an \<open>except\<close> clause, which the other
  clauses of the same \<open>try\<close> do not guard, and leaves \<open>_handle\<close>.
\<close>

definition AsyncClient_handle ::
  "(response \<Rightarrow> error option) \<Rightarrow> response \<Rightarrow> response outcome \<times> event list" where
  "AsyncClient_handle raise_for_status resp =
     (case raise_for_status resp of
        None \<Rightarrow> (Return resp, [RaiseForStatus])
      | Some HTTPStatusError \<Rightarrow>
          (case body_text resp of
             None \<Rightarrow> (Raise ResponseNotRead, [RaiseForStatus])
           | Some txt \<Rightarrow>
               (Return resp, [RaiseForStatus, LogHTTPError (status_code resp) txt]))
      | Some RequestError \<Rightarrow>
          (Return resp,
           [RaiseForStatus, LogError ''Connection error occurred while handling the request''])
      | Some e \<Rightarrow>
          (Return resp,
           [RaiseForStatus, LogError ''Unexpected error occurred while processing the response'']))"




section \<open>Python values\<close>

text \<open>
  The values a request yields and the default value are Python objects. Immutable values
  are written directly; a list or a dictionary is a reference into a store of mutable
  objects, so that two names for one object can be told from two equal objects. An object
  is its kind (a list, or a dictionary with its keys in insertion order) and its items.
  A new object is placed at the end of the store. Floats, tuples and sets are left out.
\<close>

datatype val = VNone | VBool bool | VInt int | VStr string | VRef nat

datatype kind = ListObj | DictObj "string list"

type_synonym obj = "kind \<times> val list"

text \<open>Truth value testing, as \<open>not resp\<close> does it.\<close>

fun truthy :: "obj list \<Rightarrow> val \<Rightarrow> bool" where
  "truthy h VNone = False"
| "truthy h (VBool b) = b"
| "truthy h (VInt i) = (i \<noteq> 0)"
| "truthy h (VStr s) = (s \<noteq> [])"
| "truthy h (VRef a) =
     (if a < length h
      then (case h ! a of (ListObj, vs) \<Rightarrow> vs \<noteq> [] | (DictObj ks, vs) \<Rightarrow> ks \<noteq> [])
      else True)"

text \<open>
  \<open>copy.deepcopy\<close> of the standard library, with its memo table (original object to
  copy). An immutable value is returned as it is. A list or dictionary already in the memo
  yields the copy recorded there; otherwise an empty object of the same kind is created,
  recorded in the memo, and then filled with the copies of the items, made in order with
  the memo passed along. The first argument bounds the nesting the interpreter's stack
  allows; \<open>None\<close> stands for the \<open>RecursionError\<close> raised beyond it.
\<close>

fun deepcopy :: "nat \<Rightarrow> (nat \<Rightarrow> nat option) \<Rightarrow> obj list \<Rightarrow> val
    \<Rightarrow> (val \<times> (nat \<Rightarrow> nat option) \<times> obj list) option"
  and deepcopy_items :: "nat \<Rightarrow> (nat \<Rightarrow> nat option) \<Rightarrow> obj list \<Rightarrow> val list
    \<Rightarrow> (val list \<times> (nat \<Rightarrow> nat option) \<times> obj list) option" where
  "deepcopy n m h VNone = Some (VNone, m, h)"
| "deepcopy n m h (VBool b) = Some (VBool b, m, h)"
| "deepcopy n m h (VInt i) = Some (VInt i, m, h)"
| "deepcopy n m h (VStr s) = Some (VStr s, m, h)"
| "deepcopy n m h (VRef a) =
     (case m a of
        Some y \<Rightarrow> Some (VRef y, m, h)
      | None \<Rightarrow>
         (case n of
            0 \<Rightarrow> None
          | Suc n' \<Rightarrow>
             if a < length h then
               (case deepcopy_items n' (m(a \<mapsto> length h)) (h @ [(fst (h ! a), [])])
                       (snd (h ! a)) of
                  None \<Rightarrow> None
                | Some (ys, m', h') \<Rightarrow>
                    Some (VRef (length h), m', h'[length h := (fst (h ! a), ys)]))
             else None))"
| "deepcopy_items n m h [] = Some ([], m, h)"
| "deepcopy_items n m h (v # vs) =
     (case deepcopy n m h v of
        None \<Rightarrow> None
      | Some (v', m1, h1) \<Rightarrow>
         (case deepcopy_items n m1 h1 vs of
            None \<Rightarrow> None
          | Some (vs', m2, h2) \<Rightarrow> Some (v' # vs', m2, h2)))"

text \<open>
  The structure of a value, read off the store: two values are structurally equal when
  they have the same structure. \<open>cells\<close> lists the objects the value is made of, the
  ones a mutation of the value can write to.
\<close>

datatype tree = TNone | TBool bool | TInt int | TStr string | TObj kind "tree list"

fun repr :: "obj list \<Rightarrow> val \<Rightarrow> tree \<Rightarrow> bool"
  and repr_items :: "obj list \<Rightarrow> val list \<Rightarrow> tree list \<Rightarrow> bool" where
  "repr h v TNone = (v = VNone)"
| "repr h v (TBool b) = (v = VBool b)"
| "repr h v (TInt i) = (v = VInt i)"
| "repr h v (TStr s) = (v = VStr s)"
| "repr h v (TObj k ts) =
     (case v of
        VRef a \<Rightarrow> a < length h \<and> fst (h ! a) = k \<and> repr_items h (snd (h ! a)) ts
      | _ \<Rightarrow> False)"
| "repr_items h [] [] = True"
| "repr_items h (v # vs) (t # ts) = (repr h v t \<and> repr_items h vs ts)"
| "repr_items h [] (t # ts) = False"
| "repr_items h (v # vs) [] = False"

fun cells :: "obj list \<Rightarrow> val \<Rightarrow> tree \<Rightarrow> nat list"
  and cells_items :: "obj list \<Rightarrow> val list \<Rightarrow> tree list \<Rightarrow> nat list" where
  "cells h v (TObj k ts) =
     (case v of VRef a \<Rightarrow> a # cells_items h (snd (h ! a)) ts | _ \<Rightarrow> [])"
| "cells h v TNone = []"
| "cells h v (TBool b) = []"
| "cells h v (TInt i) = []"
| "cells h v (TStr s) = []"
| "cells_items h (v # vs) (t # ts) = cells h v t @ cells_items h vs ts"
| "cells_items h [] ts = []"
| "cells_items h (v # vs) [] = []"

fun depth :: "tree \<Rightarrow> nat" and depth_items :: "tree list \<Rightarrow> nat" where
  "depth (TObj k ts) = Suc (depth_items ts)"
| "depth TNone = 0"
| "depth (TBool b) = 0"
| "depth (TInt i) = 0"
| "depth (TStr s) = 0"
| "depth_items [] = 0"
| "depth_items (t # ts) = max (depth t) (depth_items ts)"

text \<open>
  The state of a copy in progress, for a store \<open>h0\<close> at the start: the objects of
  \<open>h0\<close> are still in place, the copies in progress \<open>Q\<close> are new objects, and every
  original in \<open>D\<close> has a finished copy in the memo, with the structure of the original
  and made of new objects other than those in progress.
\<close>

definition memo_inv ::
  "obj list \<Rightarrow> (nat \<Rightarrow> nat option) \<Rightarrow> obj list \<Rightarrow> nat set \<Rightarrow> nat set \<Rightarrow> bool" where
  "memo_inv h0 m h D Q =
     (length h0 \<le> length h \<and> (\<forall>b<length h0. h ! b = h0 ! b)
      \<and> Q \<subseteq> {length h0..<length h} \<and> D \<subseteq> dom m
      \<and> (\<forall>a\<in>D. \<forall>t. repr h0 (VRef a) t \<longrightarrow>
            repr h (VRef (the (m a))) t
          \<and> set (cells h (VRef (the (m a))) t) \<subseteq> {length h0..<length h} - Q))"

section \<open>The cache\<close>

text \<open>
  Modelled from the spec: the class \<open>DatabaseManager\<close> of the module \<open>db\<close>, which is
  not among the sources. The cache maps a namespace and the parameters to the stored
  value.
\<close>

type_synonym DatabaseManager = "string \<times> (string \<Rightarrow> val option) \<Rightarrow> val option"

text \<open>
  Modelled from the spec: \<open>DatabaseManager.contains_encoded\<close>, whether the cache holds
  an entry for the namespace and the parameters.
\<close>

definition contains_encoded ::
  "DatabaseManager \<Rightarrow> string \<Rightarrow> (string \<Rightarrow> val option) \<Rightarrow> bool" where
  "contains_encoded d ns ps = (d (ns, ps) \<noteq> None)"

text \<open>
  Modelled from the spec: \<open>DatabaseManager.delete_encoded\<close>, which removes the entry.
\<close>

definition delete_encoded ::
  "DatabaseManager \<Rightarrow> string \<Rightarrow> (string \<Rightarrow> val option) \<Rightarrow> DatabaseManager" where
  "delete_encoded d ns ps = d((ns, ps) := None)"

text \<open>
  Modelled from the spec: \<open>DatabaseManager.fetch_encoded\<close>. The cache returns a stored
  value if present; otherwise it invokes the compute function on the parameters, stores
  the result only if the flag is set, and returns the fresh value. An exception of the
  compute function passes through.
\<close>

definition fetch_encoded ::
  "DatabaseManager \<Rightarrow> string \<Rightarrow> ((string \<Rightarrow> val option) \<Rightarrow> val outcome) \<Rightarrow>
   (string \<Rightarrow> val option) \<Rightarrow> bool \<Rightarrow> val outcome \<times> DatabaseManager \<times> event list" where
  "fetch_encoded d ns request_func ps should_save =
     (case d (ns, ps) of
        Some v \<Rightarrow> (Return v, d, [FetchEncoded ns])
      | None \<Rightarrow>
         (case request_func ps of
            Return v \<Rightarrow>
              if should_save
              then (Return v, d((ns, ps) \<mapsto> v), [FetchEncoded ns, RequestFunc, StoreEncoded ns])
              else (Return v, d, [FetchEncoded ns, RequestFunc])
          | Raise e \<Rightarrow> (Raise e, d, [FetchEncoded ns, RequestFunc])
          | Hang \<Rightarrow> (Hang, d, [FetchEncoded ns, RequestFunc])))"

section \<open>Requestor\<close>

text \<open>
  A queued pre-task is the coroutine object made by calling \<open>delete_encoded\<close> without
  awaiting it: it remembers its arguments and whether it has been awaited. Awaiting a
  coroutine object a second time raises \<open>RuntimeError\<close> in Python.
\<close>

record coroutine =
  co_namespace :: string
  co_params :: "string \<Rightarrow> val option"
  awaited :: bool

text \<open>
  The fields of a \<open>Requestor\<close>; \<open>save_flag\<close> is \<open>_save\<close> and \<open>delete_flag\<close> is
  \<open>_delete_from_db\<close>. The cache and the store of objects are shared with the rest of the
  program, so a call works on the three together.
\<close>

record Requestor =
  client :: AsyncClient
  endpoint :: string
  params :: "string \<Rightarrow> val option"
  required_params :: "string list"
  async_tasks :: "coroutine list"
  save_flag :: bool
  delete_flag :: bool
  default_return_value :: val

record world =
  self :: Requestor
  dbm :: DatabaseManager
  mem :: "obj list"

definition Requestor_init ::
  "AsyncClient \<Rightarrow> string \<Rightarrow> string list \<Rightarrow> val \<Rightarrow> Requestor" where
  "Requestor_init c path required dflt =
     \<lparr>client = c,
      endpoint = (case path of x # xs \<Rightarrow> if x = CHR ''/'' then path else ''/'' @ path
                  | [] \<Rightarrow> ''/'' @ path),
      params = Map.empty,
      required_params = required,
      async_tasks = [],
      save_flag = True,
      delete_flag = False,
      default_return_value = dflt\<rparr>"

definition namespace :: "Requestor \<Rightarrow> string" where
  "namespace r = base_url (client r) @ endpoint r"

text \<open>\<open>__has_required_params\<close>: one error line per missing parameter, then the verdict.\<close>

definition has_required_params :: "Requestor \<Rightarrow> bool \<times> event list" where
  "has_required_params r =
     (list_all (\<lambda>p. params r p \<noteq> None) (required_params r),
      map (\<lambda>p. LogError (''Missing required param: '' @ p))
          (filter (\<lambda>p. params r p = None) (required_params r)))"

definition save :: "Requestor \<Rightarrow> bool \<Rightarrow> Requestor" where
  "save r b = r\<lparr>save_flag := b\<rparr>"

definition delete_from_db :: "Requestor \<Rightarrow> Requestor \<times> event list" where
  "delete_from_db r =
     (if \<not> fst (has_required_params r) then (r, snd (has_required_params r))
      else (r\<lparr>async_tasks := async_tasks r @
                [\<lparr>co_namespace = namespace r, co_params = params r, awaited = False\<rparr>]\<rparr>,
            snd (has_required_params r)))"

text \<open>
  The loop \<open>for t in self.__async_tasks: await t\<close>. The list itself is not written to;
  its coroutine objects are used up as they are awaited.
\<close>

fun await_tasks ::
  "DatabaseManager \<Rightarrow> coroutine list \<Rightarrow>
   unit outcome \<times> coroutine list \<times> DatabaseManager \<times> event list" where
  "await_tasks d [] = (Return (), [], d, [])"
| "await_tasks d (t # ts) =
     (if awaited t
      then (Raise (RuntimeError ''cannot reuse already awaited coroutine''), t # ts, d,
            [Await (co_namespace t)])
      else case await_tasks (delete_encoded d (co_namespace t) (co_params t)) ts of
             (r, ts', d', evs) \<Rightarrow>
               (r, t\<lparr>awaited := True\<rparr> # ts', d', Await (co_namespace t) # evs))"

definition run_async_tasks ::
  "world \<Rightarrow> unit outcome \<times> coroutine list \<times> DatabaseManager \<times> event list" where
  "run_async_tasks w =
     (if async_tasks (self w) \<noteq> [] then await_tasks (dbm w) (async_tasks (self w))
      else (Return (), async_tasks (self w), dbm w, []))"

text \<open>
  \<open>request\<close>. \<open>request_func\<close> is the abstract \<open>_request_func\<close> of the subclass and
  \<open>limit\<close> the nesting \<open>deepcopy\<close> may reach.
\<close>

definition Requestor_request ::
  "((string \<Rightarrow> val option) \<Rightarrow> val outcome) \<Rightarrow> nat \<Rightarrow> world \<Rightarrow>
   val outcome \<times> world \<times> event list" where
  "Requestor_request request_func limit w =
     (if \<not> fst (has_required_params (self w))
      then (Raise (RuntimeError ''Required params not set''), w,
            snd (has_required_params (self w)))
      else
        case run_async_tasks w of
          (Raise e, ts, d1, evs) \<Rightarrow>
            (Raise e, w\<lparr>self := (self w)\<lparr>async_tasks := ts\<rparr>, dbm := d1\<rparr>,
             snd (has_required_params (self w)) @ evs)
        | (Hang, ts, d1, evs) \<Rightarrow>
            (Hang, w\<lparr>self := (self w)\<lparr>async_tasks := ts\<rparr>, dbm := d1\<rparr>,
             snd (has_required_params (self w)) @ evs)
        | (Return u, ts, d1, evs) \<Rightarrow>
           (case fetch_encoded d1 (namespace (self w)) request_func (params (self w))
                   (save_flag (self w)) of
              (Raise e, d2, fevs) \<Rightarrow>
                (Raise e, w\<lparr>self := (self w)\<lparr>async_tasks := ts\<rparr>, dbm := d2\<rparr>,
                 snd (has_required_params (self w)) @ evs @ fevs)
            | (Hang, d2, fevs) \<Rightarrow>
                (Hang, w\<lparr>self := (self w)\<lparr>async_tasks := ts\<rparr>, dbm := d2\<rparr>,
                 snd (has_required_params (self w)) @ evs @ fevs)
            | (Return resp, d2, fevs) \<Rightarrow>
                if \<not> truthy (mem w) resp then
                  (case deepcopy limit Map.empty (mem w) (default_return_value (self w)) of
                     None \<Rightarrow>
                       (Raise RecursionError,
                        w\<lparr>self := (self w)\<lparr>async_tasks := ts\<rparr>, dbm := d2\<rparr>,
                        snd (has_required_params (self w)) @ evs @ fevs)
                   | Some (v, m', h') \<Rightarrow>
                       (Return v,
                        w\<lparr>self := (self w)\<lparr>async_tasks := ts\<rparr>, dbm := d2, mem := h'\<rparr>,
                        snd (has_required_params (self w)) @ evs @ fevs))
                else
                  (Return resp, w\<lparr>self := (self w)\<lparr>async_tasks := ts\<rparr>, dbm := d2\<rparr>,
                   snd (has_required_params (self w)) @ evs @ fevs)))"

text \<open>\<open>request_only\<close> has no \<open>return\<close> with a value: it yields \<open>None\<close> on both paths.\<close>

definition request_only ::
  "((string \<Rightarrow> val option) \<Rightarrow> val outcome) \<Rightarrow> nat \<Rightarrow> world \<Rightarrow>
   val outcome \<times> world \<times> event list" where
  "request_only request_func limit w =
     (if contains_encoded (dbm w) (namespace (self w)) (params (self w))
      then (Return VNone, w, [ContainsEncoded (namespace (self w))])
      else
        case Requestor_request request_func limit w of
          (Return v, w', evs) \<Rightarrow> (Return VNone, w', ContainsEncoded (namespace (self w)) # evs)
        | (Raise e, w', evs) \<Rightarrow> (Raise e, w', ContainsEncoded (namespace (self w)) # evs)
        | (Hang, w', evs) \<Rightarrow> (Hang, w', ContainsEncoded (namespace (self w)) # evs))"

fun is_log :: "event \<Rightarrow> bool" where
  "is_log (LogError m) = True"
| "is_log (LogDebug d) = True"
| "is_log (LogHTTPError c t) = True"
| "is_log e = False"

section \<open>Values for the examples\<close>

text \<open>
  A client of \<open>http://api/\<close>, a requestor of its endpoint \<open>depth\<close> that requires the
  parameter \<open>symbol\<close> and defaults to an empty list, two compute functions, a session that
  answers every request with one response, a response with status 404 whose body has not
  been read, and what \<open>raise_for_status\<close> of the HTTP library does with a status code.
\<close>

definition example_client :: AsyncClient where
  "example_client = AsyncClient_init ''http://api/'' None"

definition example_requestor :: Requestor where
  "example_requestor =
     (Requestor_init example_client ''depth'' [''symbol''] (VRef 0))
       \<lparr>params := [''symbol'' \<mapsto> VStr ''BTC'']\<rparr>"

definition example_world :: world where
  "example_world = \<lparr>self = example_requestor, dbm = Map.empty, mem = [(ListObj, [])]\<rparr>"

definition seven_func :: "(string \<Rightarrow> val option) \<Rightarrow> val outcome" where
  "seven_func ps = Return (VInt 7)"

definition none_func :: "(string \<Rightarrow> val option) \<Rightarrow> val outcome" where
  "none_func ps = Return VNone"

definition queued_world :: world where
  "queued_world = example_world\<lparr>self := fst (delete_from_db example_requestor)\<rparr>"







section \<open>The token bucket: results\<close>

lemma acquire_token_max_calls: "max_calls (fst (snd (acquire_token s w t1 t2))) = max_calls s"
  by (simp add: acquire_token_def Let_def)

lemma acquire_token_rate: "rate (fst (snd (acquire_token s w t1 t2))) = rate s"
  by (simp add: acquire_token_def Let_def)

text \<open>
  C1. With a refill rate other than zero, \<open>_acquire_token\<close> is the token bucket of the
  specification: it returns, the gate it leaves is the one obtained by refilling at the
  first reading, refilling once more at the second reading when the balance was below the
  weight, and debiting the weight; it sleeps exactly for the suspensions the specification
  lists, and reads the clock once per refill.
\<close>

theorem acquire_token_refines_spec:
  assumes "rate s \<noteq> 0"
  shows "fst (acquire_token s w t1 t2) = Return ()
       \<and> fst (snd (acquire_token s w t1 t2)) = spec_acquire s w t1 t2
       \<and> suspensions (snd (snd (acquire_token s w t1 t2))) = spec_suspensions s w t1
       \<and> clock_reads (snd (snd (acquire_token s w t1 t2))) =
           (if tokens (spec_refill s t1) < of_int w then [t1, t2] else [t1])"
  using assms
  by (simp add: acquire_token_def spec_acquire_def spec_refill_def spec_debit_def
      spec_suspensions_def Let_def min.commute)

theorem acquire_token_refines_spec_witness:
  "rate \<lparr>max_calls = 2, rate = 2, tokens = 0, last_time = 0, semaphore = 1\<rparr> \<noteq> 0
   \<and> fst (snd (acquire_token \<lparr>max_calls = 2, rate = 2, tokens = 0, last_time = 0, semaphore = 1\<rparr>
         1 0 (1/2)))
     = \<lparr>max_calls = 2, rate = 2, tokens = 0, last_time = 1/2, semaphore = 1\<rparr>
   \<and> suspensions (snd (snd (acquire_token
         \<lparr>max_calls = 2, rate = 2, tokens = 0, last_time = 0, semaphore = 1\<rparr> 1 0 (1/2))))
     = [1/2]"
  using acquire_token_refines_spec
    [of "\<lparr>max_calls = 2, rate = 2, tokens = 0, last_time = 0, semaphore = 1\<rparr>" 1 0 "1/2"]
  by (simp add: spec_acquire_def spec_refill_def spec_debit_def spec_suspensions_def)

lemma acquire_token_returns:
  "rate s \<noteq> 0 \<Longrightarrow> fst (acquire_token s w t1 t2) = Return ()"
  by (simp add: acquire_token_def Let_def)

lemma acquire_token_upper:
  assumes "0 \<le> w"
  shows "tokens (fst (snd (acquire_token s w t1 t2))) \<le> of_int (max_calls s)"
proof -
  have "0 \<le> real_of_int w" using assms by simp
  then show ?thesis
    by (auto simp add: acquire_token_def Let_def min_def)
qed

lemma acquire_token_lower:
  assumes "fst (acquire_token s w t1 t2) = Return ()"
    and "suspensions (snd (snd (acquire_token s w t1 t2))) = []"
  shows "0 \<le> tokens (fst (snd (acquire_token s w t1 t2)))"
  using assms
  by (auto simp add: acquire_token_def Let_def split: if_splits)

lemma set_used_tokens_inv:
  "0 \<le> used \<Longrightarrow> used \<le> max_calls s \<Longrightarrow> bucket_inv (set_used_tokens s used)"
  by (simp add: set_used_tokens_def bucket_inv_def)

lemma run_returns:
  "rate s \<noteq> 0 \<Longrightarrow>
     \<exists>s'. run s cs = (Return (), s') \<and> rate s' = rate s \<and> max_calls s' = max_calls s"
proof (induction cs arbitrary: s)
  case Nil
  then show ?case by simp
next
  case (Cons c cs)
  show ?case
  proof (cases c)
    case (Acquire w t1 t2)
    obtain r s1 evs where a: "acquire_token s w t1 t2 = (r, s1, evs)"
      by (cases "acquire_token s w t1 t2") auto
    from acquire_token_returns[OF Cons.prems, of w t1 t2] a have r: "r = Return ()" by simp
    have rt: "rate s1 = rate s" using acquire_token_rate[of s w t1 t2] a by simp
    have mc: "max_calls s1 = max_calls s" using acquire_token_max_calls[of s w t1 t2] a by simp
    from Cons.IH[of s1] rt Cons.prems obtain s' where
      "run s1 cs = (Return (), s')" "rate s' = rate s1" "max_calls s' = max_calls s1"
      by auto
    with Acquire a r rt mc show ?thesis by simp
  next
    case (SetUsedTokens used)
    let ?s1 = "set_used_tokens s used"
    have "rate ?s1 \<noteq> 0" using Cons.prems by (simp add: set_used_tokens_def)
    from Cons.IH[OF this] obtain s' where
      "run ?s1 cs = (Return (), s')" "rate s' = rate ?s1" "max_calls s' = max_calls ?s1"
      by auto
    with SetUsedTokens show ?thesis by (simp add: set_used_tokens_def)
  qed
qed

lemma run_snoc:
  "run s xs = (Return (), s1) \<Longrightarrow> run s (xs @ [c]) = run s1 [c]"
proof (induction xs arbitrary: s)
  case Nil
  then show ?case by simp
next
  case (Cons x xs)
  show ?case
  proof (cases x)
    case (Acquire w t1 t2)
    obtain r s2 evs where a: "acquire_token s w t1 t2 = (r, s2, evs)"
      by (cases "acquire_token s w t1 t2") auto
    show ?thesis
    proof (cases r)
      case (Return u)
      with Cons.prems Acquire a have "run s2 xs = (Return (), s1)" by simp
      from Cons.IH[OF this] Acquire a Return show ?thesis by simp
    next
      case (Raise e)
      with Cons.prems Acquire a show ?thesis by simp
    next
      case Hang
      with Cons.prems Acquire a show ?thesis by simp
    qed
  next
    case (SetUsedTokens used)
    with Cons.prems have "run (set_used_tokens s used) xs = (Return (), s1)" by simp
    from Cons.IH[OF this] SetUsedTokens show ?thesis by simp
  qed
qed

lemma run_step:
  assumes r: "rate s \<noteq> 0" and ok: "call_ok (max_calls s) c"
  shows "\<exists>s'. run s [c] = (Return (), s') \<and> tokens s' \<le> of_int (max_calls s')
           \<and> (\<not> sleeps s c \<longrightarrow> 0 \<le> tokens s')"
proof (cases c)
  case (Acquire w t1 t2)
  obtain o1 s1 evs where a: "acquire_token s w t1 t2 = (o1, s1, evs)"
    by (cases "acquire_token s w t1 t2") auto
  from acquire_token_returns[OF r, of w t1 t2] a have o1: "o1 = Return ()" by simp
  from ok Acquire have w: "0 \<le> w" by simp
  have up: "tokens s1 \<le> of_int (max_calls s1)"
    using acquire_token_upper[OF w, of s t1 t2] acquire_token_max_calls[of s w t1 t2] a by simp
  have lo: "\<not> sleeps s c \<longrightarrow> 0 \<le> tokens s1"
    using acquire_token_lower[of s w t1 t2] a o1 Acquire by simp
  from a o1 Acquire up lo show ?thesis by simp
next
  case (SetUsedTokens used)
  with ok have "bucket_inv (set_used_tokens s used)" by (simp add: set_used_tokens_inv)
  with SetUsedTokens show ?thesis by (simp add: bucket_inv_def)
qed

text \<open>
  C8, as amended. On a gate constructed with positive \<open>max_calls\<close> and \<open>period\<close> the
  balance starts within \<open>0 \<le> tokens \<le> capacity\<close>. In every sequence of calls
  \<open>acquire(w)\<close> with \<open>0 \<le> w \<le> capacity\<close> and \<open>set_used_tokens(used)\<close> with
  \<open>0 \<le> used \<le> capacity\<close>, whatever the clock reads, every call returns and leaves
  \<open>tokens \<le> capacity\<close>, and every call that does not sleep leaves \<open>0 \<le> tokens\<close>.
  Nothing is said of the lower bound after an acquisition that slept: \<open>_acquire_token\<close>
  debits without looking at the balance again.
\<close>

theorem bucket_invariant:
  assumes "0 < m" and "0 < p"
    and "RateLimitContext_init m p c t0 = Return s0"
    and "list_all (call_ok m) cs"
  shows "bucket_inv s0
       \<and> (\<forall>i<length cs. \<exists>s s'.
             run s0 (take i cs) = (Return (), s)
           \<and> run s0 (take (Suc i) cs) = (Return (), s')
           \<and> tokens s' \<le> of_int (max_calls s')
           \<and> (\<not> sleeps s (cs ! i) \<longrightarrow> 0 \<le> tokens s'))"
proof (intro conjI allI impI)
  from assms(3) have s0: "s0 = \<lparr>max_calls = m, rate = of_int m / of_int p, tokens = of_int m,
      last_time = t0, semaphore = c\<rparr>"
    by (auto simp: RateLimitContext_init_def split: if_splits)
  have r0: "rate s0 \<noteq> 0" using assms(1,2) by (simp add: s0)
  have m0: "max_calls s0 = m" by (simp add: s0)
  show "bucket_inv s0" using assms(1) by (simp add: s0 bucket_inv_def)
  fix i assume i: "i < length cs"
  from run_returns[OF r0, of "take i cs"] obtain s where
    s: "run s0 (take i cs) = (Return (), s)" and rs: "rate s = rate s0"
    and ms: "max_calls s = max_calls s0"
    by blast
  from assms(4) i have "call_ok m (cs ! i)" by (simp add: list_all_length)
  then have ok: "call_ok (max_calls s) (cs ! i)" by (simp add: ms m0)
  have rs': "rate s \<noteq> 0" using rs r0 by simp
  from run_step[OF rs' ok] obtain s' where
    st: "run s [cs ! i] = (Return (), s')" and up: "tokens s' \<le> of_int (max_calls s')"
    and lo: "\<not> sleeps s (cs ! i) \<longrightarrow> 0 \<le> tokens s'"
    by blast
  have "run s0 (take (Suc i) cs) = run s [cs ! i]"
    using run_snoc[OF s, of "cs ! i"] i by (simp add: take_Suc_conv_app_nth)
  with s st up lo
  show "\<exists>s s'. run s0 (take i cs) = (Return (), s)
           \<and> run s0 (take (Suc i) cs) = (Return (), s')
           \<and> tokens s' \<le> of_int (max_calls s')
           \<and> (\<not> sleeps s (cs ! i) \<longrightarrow> 0 \<le> tokens s')"
    by auto
qed

text \<open>
  The scenario of the specification: a gate of two calls per second; two immediate
  acquisitions, a third that waits half a second, the balance reconciled to zero, and an
  acquisition of the full capacity. The second acquisition does not sleep and leaves no
  token; the third sleeps.
\<close>

theorem bucket_invariant_witness:
  "(0::int) < 2 \<and> (0::int) < 1
   \<and> RateLimitContext_init 2 1 1 0 =
       Return \<lparr>max_calls = 2, rate = 2, tokens = 2, last_time = 0, semaphore = 1\<rparr>
   \<and> call_ok 2 (Acquire 1 0 0) \<and> call_ok 2 (Acquire 1 0 (1/2)) \<and> call_ok 2 (SetUsedTokens 2)
   \<and> call_ok 2 (Acquire 2 1 2)
   \<and> bucket_inv \<lparr>max_calls = 2, rate = 2, tokens = 2, last_time = 0, semaphore = 1\<rparr>
   \<and> run \<lparr>max_calls = 2, rate = 2, tokens = 2, last_time = 0, semaphore = 1\<rparr>
        (take 1 [Acquire 1 0 0, Acquire 1 0 0, Acquire 1 0 (1/2), SetUsedTokens 2, Acquire 2 1 2])
       = (Return (), \<lparr>max_calls = 2, rate = 2, tokens = 1, last_time = 0, semaphore = 1\<rparr>)
   \<and> \<not> sleeps \<lparr>max_calls = 2, rate = 2, tokens = 1, last_time = 0, semaphore = 1\<rparr>
        ([Acquire 1 0 0, Acquire 1 0 0, Acquire 1 0 (1/2), SetUsedTokens 2, Acquire 2 1 2] ! 1)
   \<and> run \<lparr>max_calls = 2, rate = 2, tokens = 2, last_time = 0, semaphore = 1\<rparr>
        (take 2 [Acquire 1 0 0, Acquire 1 0 0, Acquire 1 0 (1/2), SetUsedTokens 2, Acquire 2 1 2])
       = (Return (), \<lparr>max_calls = 2, rate = 2, tokens = 0, last_time = 0, semaphore = 1\<rparr>)
   \<and> sleeps \<lparr>max_calls = 2, rate = 2, tokens = 0, last_time = 0, semaphore = 1\<rparr>
        ([Acquire 1 0 0, Acquire 1 0 0, Acquire 1 0 (1/2), SetUsedTokens 2, Acquire 2 1 2] ! 2)"
proof -
  have i: "RateLimitContext_init 2 1 1 0 =
       Return \<lparr>max_calls = 2, rate = 2, tokens = 2, last_time = 0, semaphore = 1\<rparr>"
    by (simp add: RateLimitContext_init_def)
  have ok: "list_all (call_ok 2)
      [Acquire 1 0 0, Acquire 1 0 0, Acquire 1 0 (1/2), SetUsedTokens 2, Acquire 2 1 2]"
    by simp
  have r1: "run \<lparr>max_calls = 2, rate = 2, tokens = 2, last_time = 0, semaphore = 1\<rparr>
        (take 1 [Acquire 1 0 0, Acquire 1 0 0, Acquire 1 0 (1/2), SetUsedTokens 2, Acquire 2 1 2])
       = (Return (), \<lparr>max_calls = 2, rate = 2, tokens = 1, last_time = 0, semaphore = 1\<rparr>)"
    by (simp add: acquire_token_def Let_def)
  have r2: "run \<lparr>max_calls = 2, rate = 2, tokens = 2, last_time = 0, semaphore = 1\<rparr>
        (take 2 [Acquire 1 0 0, Acquire 1 0 0, Acquire 1 0 (1/2), SetUsedTokens 2, Acquire 2 1 2])
       = (Return (), \<lparr>max_calls = 2, rate = 2, tokens = 0, last_time = 0, semaphore = 1\<rparr>)"
    by (simp add: acquire_token_def Let_def take_Suc_Cons numeral_2_eq_2)
  have n1: "\<not> sleeps \<lparr>max_calls = 2, rate = 2, tokens = 1, last_time = 0, semaphore = 1\<rparr>
        ([Acquire 1 0 0, Acquire 1 0 0, Acquire 1 0 (1/2), SetUsedTokens 2, Acquire 2 1 2] ! 1)"
    by (simp add: acquire_token_def Let_def)
  have n2: "sleeps \<lparr>max_calls = 2, rate = 2, tokens = 0, last_time = 0, semaphore = 1\<rparr>
        ([Acquire 1 0 0, Acquire 1 0 0, Acquire 1 0 (1/2), SetUsedTokens 2, Acquire 2 1 2] ! 2)"
    by (simp add: acquire_token_def Let_def)
  from bucket_invariant[OF _ _ i ok] i r1 r2 n1 n2 show ?thesis by simp
qed

text \<open>
  C8 as stated. A gate of 49 calls per second with no token left is asked for one token; it
  asks to sleep for 1/49 s and the clock reads, after the sleep, the double-precision number
  nearest to 1/49, a little less than 1/49: the balance ends below zero. And a weight below
  zero is below the capacity: acquiring it on a fresh gate of capacity 2 leaves 3 tokens.
\<close>

theorem bucket_invariant_counterexample:
  "RateLimitContext_init 49 1 1 0 =
       Return \<lparr>max_calls = 49, rate = 49, tokens = 49, last_time = 0, semaphore = 1\<rparr>
   \<and> run \<lparr>max_calls = 49, rate = 49, tokens = 49, last_time = 0, semaphore = 1\<rparr>
        [SetUsedTokens 49, Acquire 1 0 (5882252574524729 / 288230376151711744)]
       = (Return (), \<lparr>max_calls = 49, rate = 49,
                      tokens = 49 * (5882252574524729 / 288230376151711744) - 1,
                      last_time = 5882252574524729 / 288230376151711744, semaphore = 1\<rparr>)
   \<and> 49 * (5882252574524729 / 288230376151711744) - 1 < (0::real)
   \<and> \<not> bucket_inv \<lparr>max_calls = 49, rate = 49,
                      tokens = 49 * (5882252574524729 / 288230376151711744) - 1,
                      last_time = 5882252574524729 / 288230376151711744, semaphore = 1\<rparr>
   \<and> RateLimitContext_init 2 1 1 0 =
       Return \<lparr>max_calls = 2, rate = 2, tokens = 2, last_time = 0, semaphore = 1\<rparr>
   \<and> (-1::int) \<le> max_calls \<lparr>max_calls = 2, rate = 2, tokens = 2, last_time = 0, semaphore = 1\<rparr>
   \<and> run \<lparr>max_calls = 2, rate = 2, tokens = 2, last_time = 0, semaphore = 1\<rparr> [Acquire (-1) 0 0]
       = (Return (), \<lparr>max_calls = 2, rate = 2, tokens = 3, last_time = 0, semaphore = 1\<rparr>)
   \<and> \<not> bucket_inv \<lparr>max_calls = 2, rate = 2, tokens = 3, last_time = 0, semaphore = 1\<rparr>"
  by (simp add: RateLimitContext_init_def acquire_token_def set_used_tokens_def bucket_inv_def
      Let_def)

text \<open>
  C9, as amended. Construction fails exactly when \<open>period\<close> is zero, with the division
  error, or, for another period, when \<open>max_concurrency\<close> is negative, with the value error
  of the semaphore. Every other construction succeeds, whatever the signs of \<open>max_calls\<close>
  and \<open>period\<close>, with \<open>tokens = max_calls\<close> and \<open>rate = max_calls / period\<close>; so
  construction with positive parameters succeeds.
\<close>

theorem init_outcome:
  "(p = 0 \<longrightarrow> RateLimitContext_init m p c now = Raise ZeroDivisionError)
   \<and> (p \<noteq> 0 \<and> c < 0 \<longrightarrow> RateLimitContext_init m p c now = Raise ValueError)
   \<and> (p \<noteq> 0 \<and> 0 \<le> c \<longrightarrow>
        (\<exists>s. RateLimitContext_init m p c now = Return s
           \<and> max_calls s = m \<and> tokens s = of_int m \<and> rate s = of_int m / of_int p
           \<and> last_time s = now \<and> semaphore s = c))"
  by (simp add: RateLimitContext_init_def)

theorem init_outcome_witness:
  "RateLimitContext_init 2 0 1 0 = Raise ZeroDivisionError
   \<and> RateLimitContext_init 2 1 (-1) 0 = Raise ValueError
   \<and> (\<exists>s. RateLimitContext_init 2 1 1 0 = Return s \<and> tokens s = 2 \<and> rate s = 2)"
  using init_outcome[where p = 0 and m = 2 and c = 1 and now = 0]
    init_outcome[where p = 1 and m = 2 and c = "-1" and now = 0]
    init_outcome[where p = 1 and m = 2 and c = 1 and now = 0]
  by auto

text \<open>
  C9 as stated: a gate of \<open>-5\<close> calls per \<open>-1\<close> seconds is constructed without error.
\<close>

theorem init_counterexample:
  "(-5::int) \<le> 0 \<and> (-1::int) \<le> 0
   \<and> RateLimitContext_init (-5) (-1) 1 0 =
       Return \<lparr>max_calls = -5, rate = 5, tokens = -5, last_time = 0, semaphore = 1\<rparr>"
  by (simp add: RateLimitContext_init_def)

text \<open>
  C10. On a gate whose refill rate is not zero, \<open>_acquire_token\<close> with a weight above
  the capacity returns after exactly one sleep; the balance it leaves is the second
  refill, clamped to the capacity, less the weight, and is below zero.
\<close>

theorem acquire_token_overweight:
  assumes "rate s \<noteq> 0" and "max_calls s < w"
  shows "fst (acquire_token s w t1 t2) = Return ()
    \<and> length (suspensions (snd (snd (acquire_token s w t1 t2)))) = 1
    \<and> tokens (fst (snd (acquire_token s w t1 t2))) =
        min (min (tokens s + (t1 - last_time s) * rate s) (of_int (max_calls s))
               + (t2 - t1) * rate s) (of_int (max_calls s)) - of_int w
    \<and> tokens (fst (snd (acquire_token s w t1 t2))) < 0"
proof -
  have "real_of_int (max_calls s) < real_of_int w" using assms(2) by simp
  with assms(1) show ?thesis
    by (simp add: acquire_token_def Let_def min_def)
qed

theorem acquire_token_overweight_witness:
  "rate \<lparr>max_calls = 2, rate = 2, tokens = 2, last_time = 0, semaphore = 1\<rparr> \<noteq> 0
   \<and> max_calls \<lparr>max_calls = 2, rate = 2, tokens = 2, last_time = 0, semaphore = 1\<rparr> < 3
   \<and> acquire_token \<lparr>max_calls = 2, rate = 2, tokens = 2, last_time = 0, semaphore = 1\<rparr> 3 0 (1/2)
     = (Return (), \<lparr>max_calls = 2, rate = 2, tokens = -1, last_time = 1/2, semaphore = 1\<rparr>,
        [Monotonic 0, LogDebug (1/2), Sleep (1/2), Monotonic (1/2)])
   \<and> tokens (fst (snd (acquire_token
        \<lparr>max_calls = 2, rate = 2, tokens = 2, last_time = 0, semaphore = 1\<rparr> 3 0 (1/2)))) < 0"
  using acquire_token_overweight
    [of "\<lparr>max_calls = 2, rate = 2, tokens = 2, last_time = 0, semaphore = 1\<rparr>" 3 0 "1/2"]
  by (simp add: acquire_token_def Let_def)

section \<open>The client: results\<close>


lemma handle_read_body:
  "body_text resp \<noteq> None \<Longrightarrow> fst (AsyncClient_handle rfs resp) = Return resp"
  by (auto simp: AsyncClient_handle_def split: option.splits error.splits)







section \<open>The requestor: results\<close>

lemma repr_frame:
  "repr h v t \<Longrightarrow> length h \<le> length h' \<Longrightarrow> (\<forall>b\<in>set (cells h v t). h' ! b = h ! b)
     \<Longrightarrow> repr h' v t \<and> cells h' v t = cells h v t"
  "repr_items h vs ts \<Longrightarrow> length h \<le> length h' \<Longrightarrow> (\<forall>b\<in>set (cells_items h vs ts). h' ! b = h ! b)
     \<Longrightarrow> repr_items h' vs ts \<and> cells_items h' vs ts = cells_items h vs ts"
  by (induction h v t and h vs ts rule: repr_repr_items.induct) (auto split: val.splits)

lemma repr_functional:
  "\<And>v t'. repr h v t \<Longrightarrow> repr h v t' \<Longrightarrow> t = t'"
  "\<And>vs ts'. repr_items h vs ts \<Longrightarrow> repr_items h vs ts' \<Longrightarrow> ts = ts'"
proof (induction t and ts rule: depth_depth_items.induct)
  case (1 k ts)
  then show ?case by (cases t') (auto split: val.splits)
next
  case 2
  then show ?case by (cases t') (auto split: val.splits)
next
  case (3 b)
  then show ?case by (cases t') (auto split: val.splits)
next
  case (4 i)
  then show ?case by (cases t') (auto split: val.splits)
next
  case (5 s)
  then show ?case by (cases t') (auto split: val.splits)
next
  case 6
  then show ?case by (cases vs; cases ts') auto
next
  case (7 t ts)
  then show ?case by (cases vs; cases ts') auto
qed

lemma cells_bound:
  "repr h v t \<Longrightarrow> set (cells h v t) \<subseteq> {..<length h}"
  "repr_items h vs ts \<Longrightarrow> set (cells_items h vs ts) \<subseteq> {..<length h}"
  by (induction h v t and h vs ts rule: repr_repr_items.induct) (auto split: val.splits)

lemma cells_sub:
  "repr h v t \<Longrightarrow> c \<in> set (cells h v t) \<Longrightarrow> \<exists>t'. repr h (VRef c) t' \<and> depth t' \<le> depth t"
  "repr_items h vs ts \<Longrightarrow> c \<in> set (cells_items h vs ts)
     \<Longrightarrow> \<exists>t'. repr h (VRef c) t' \<and> depth t' \<le> depth_items ts"
proof (induction h v t and h vs ts rule: repr_repr_items.induct)
  case (5 h v k ts)
  then obtain a where v: "v = VRef a" and a: "a < length h" "fst (h ! a) = k"
    and it: "repr_items h (snd (h ! a)) ts"
    by (auto split: val.splits)
  from "5.prems"(2) v have "c = a \<or> c \<in> set (cells_items h (snd (h ! a)) ts)" by auto
  then show ?case
  proof
    assume "c = a"
    with "5.prems"(1) v show ?thesis by (intro exI[of _ "TObj k ts"]) auto
  next
    assume "c \<in> set (cells_items h (snd (h ! a)) ts)"
    from "5.IH"[OF v it this] show ?thesis by auto
  qed
next
  case (7 h v vs t ts)
  from "7.prems"(2) have "c \<in> set (cells h v t) \<or> c \<in> set (cells_items h vs ts)" by auto
  then show ?case
  proof
    assume "c \<in> set (cells h v t)"
    with "7.IH"(1) "7.prems"(1) obtain t' where "repr h (VRef c) t'" "depth t' \<le> depth t"
      by auto
    then show ?thesis by (auto intro!: exI[of _ t'])
  next
    assume "c \<in> set (cells_items h vs ts)"
    with "7.IH"(2) "7.prems"(1) obtain t' where "repr h (VRef c) t'" "depth t' \<le> depth_items ts"
      by auto
    then show ?thesis by (auto intro!: exI[of _ t'])
  qed
qed simp_all

lemma repr_acyclic:
  assumes "repr h (VRef a) (TObj k ts)"
  shows "a \<notin> set (cells_items h (snd (h ! a)) ts)"
proof
  assume c: "a \<in> set (cells_items h (snd (h ! a)) ts)"
  from assms have it: "repr_items h (snd (h ! a)) ts" by simp
  from cells_sub(2)[OF it c] obtain t' where r: "repr h (VRef a) t'"
    and d: "depth t' \<le> depth_items ts" by blast
  from repr_functional(1)[OF assms r] have "t' = TObj k ts" by simp
  with d show False by simp
qed


lemma repr_prefix:
  "repr h v t \<Longrightarrow> length h \<le> length h' \<Longrightarrow> (\<forall>b<length h. h' ! b = h ! b)
     \<Longrightarrow> repr h' v t \<and> cells h' v t = cells h v t"
  using repr_frame(1)[of h v t h'] cells_bound(1)[of h v t] by auto

lemma repr_items_prefix:
  "repr_items h vs ts \<Longrightarrow> length h \<le> length h' \<Longrightarrow> (\<forall>b<length h. h' ! b = h ! b)
     \<Longrightarrow> repr_items h' vs ts \<and> cells_items h' vs ts = cells_items h vs ts"
  using repr_frame(2)[of h vs ts h'] cells_bound(2)[of h vs ts] by auto

lemma memo_inv_hit:
  assumes inv: "memo_inv h0 m h D Q" and r: "repr h0 (VRef a) t" and a: "a \<in> D"
    and m: "m a = Some y"
  shows "repr h (VRef y) t \<and> set (cells h (VRef y) t) \<subseteq> {length h0..<length h} - Q"
  using assms unfolding memo_inv_def by force

lemma memo_inv_alloc:
  assumes inv: "memo_inv h0 m h D Q" and a: "m a = None"
  shows "memo_inv h0 (m(a \<mapsto> length h)) (h @ [ob]) D (insert (length h) Q)"
proof -
  from inv have c1: "length h0 \<le> length (h @ [ob])" by (simp add: memo_inv_def)
  from inv have c2: "\<forall>b<length h0. (h @ [ob]) ! b = h0 ! b"
    by (simp add: memo_inv_def nth_append)
  from inv have c3: "insert (length h) Q \<subseteq> {length h0..<length (h @ [ob])}"
    by (auto simp: memo_inv_def)
  from inv have c4: "D \<subseteq> dom (m(a \<mapsto> length h))" by (auto simp: memo_inv_def)
  have c5: "\<forall>a0\<in>D. \<forall>t. repr h0 (VRef a0) t \<longrightarrow>
            repr (h @ [ob]) (VRef (the ((m(a \<mapsto> length h)) a0))) t
          \<and> set (cells (h @ [ob]) (VRef (the ((m(a \<mapsto> length h)) a0))) t)
              \<subseteq> {length h0..<length (h @ [ob])} - insert (length h) Q"
  proof (intro ballI allI impI)
    fix a0 t assume a0: "a0 \<in> D" and r: "repr h0 (VRef a0) t"
    from inv a0 a have ne: "a0 \<noteq> a" by (auto simp: memo_inv_def)
    from inv a0 r have rp: "repr h (VRef (the (m a0))) t"
      and cl: "set (cells h (VRef (the (m a0))) t) \<subseteq> {length h0..<length h} - Q"
      by (auto simp: memo_inv_def)
    from repr_prefix[OF rp, of "h @ [ob]"]
    have rp': "repr (h @ [ob]) (VRef (the (m a0))) t"
      and ce: "cells (h @ [ob]) (VRef (the (m a0))) t = cells h (VRef (the (m a0))) t"
      by (simp_all add: nth_append)
    from rp' ce cl ne
    show "repr (h @ [ob]) (VRef (the ((m(a \<mapsto> length h)) a0))) t
          \<and> set (cells (h @ [ob]) (VRef (the ((m(a \<mapsto> length h)) a0))) t)
              \<subseteq> {length h0..<length (h @ [ob])} - insert (length h) Q"
      by auto
  qed
  from c1 c2 c3 c4 c5 show ?thesis unfolding memo_inv_def by blast
qed

lemma deepcopy_correct:
  "\<And>n m h v D Q. repr h0 v t \<Longrightarrow> depth t \<le> n \<Longrightarrow> memo_inv h0 m h D Q
     \<Longrightarrow> set (cells h0 v t) \<inter> (dom m - D) = {}
     \<Longrightarrow> \<exists>v' m' h'. deepcopy n m h v = Some (v', m', h')
          \<and> memo_inv h0 m' h' (D \<union> (dom m' - dom m)) Q
          \<and> map_le m m' \<and> length h \<le> length h' \<and> (\<forall>b<length h. h' ! b = h ! b)
          \<and> repr h' v' t \<and> set (cells h' v' t) \<subseteq> {length h0..<length h'} - Q"
  "\<And>n m h vs D Q. repr_items h0 vs ts \<Longrightarrow> depth_items ts \<le> n \<Longrightarrow> memo_inv h0 m h D Q
     \<Longrightarrow> set (cells_items h0 vs ts) \<inter> (dom m - D) = {}
     \<Longrightarrow> \<exists>vs' m' h'. deepcopy_items n m h vs = Some (vs', m', h')
          \<and> memo_inv h0 m' h' (D \<union> (dom m' - dom m)) Q
          \<and> map_le m m' \<and> length h \<le> length h' \<and> (\<forall>b<length h. h' ! b = h ! b)
          \<and> repr_items h' vs' ts \<and> set (cells_items h' vs' ts) \<subseteq> {length h0..<length h'} - Q"
proof (induction t and ts rule: depth_depth_items.induct)
  case (1 k ts)
  let ?t = "TObj k ts"
  from "1.prems"(1) obtain a where v: "v = VRef a" and a0: "a < length h0"
    and k: "fst (h0 ! a) = k" and items: "repr_items h0 (snd (h0 ! a)) ts"
    by (auto split: val.splits)
  note inv = "1.prems"(3)
  from inv have len: "length h0 \<le> length h" and old: "\<forall>b<length h0. h ! b = h0 ! b"
    and Q: "Q \<subseteq> {length h0..<length h}" and D: "D \<subseteq> dom m"
    by (auto simp: memo_inv_def)
  have ra: "repr h0 (VRef a) ?t" using "1.prems"(1) v by simp
  show ?case
  proof (cases "m a")
    case (Some y)
    from "1.prems"(4) v Some have "a \<in> D" by auto
    from memo_inv_hit[OF inv ra this Some]
    have "repr h (VRef y) ?t" "set (cells h (VRef y) ?t) \<subseteq> {length h0..<length h} - Q"
      by auto
    moreover have "deepcopy n m h v = Some (VRef y, m, h)" using v Some by simp
    moreover have "memo_inv h0 m h (D \<union> (dom m - dom m)) Q" using inv by simp
    ultimately show ?thesis by (auto simp: map_le_def)
  next
    case None
    from "1.prems"(2) obtain n' where n: "n = Suc n'" and d: "depth_items ts \<le> n'"
      by (cases n) auto
    let ?y = "length h"
    let ?h1 = "h @ [(k, [])]"
    let ?m1 = "m(a \<mapsto> ?y)"
    let ?Q1 = "insert ?y Q"
    have ha: "h ! a = h0 ! a" and ah: "a < length h" using a0 len old by auto
    have inv1: "memo_inv h0 ?m1 ?h1 D ?Q1" by (rule memo_inv_alloc[OF inv None])
    have aD: "a \<notin> D" using D None by auto
    have dis: "set (cells_items h0 (snd (h0 ! a)) ts) \<inter> (dom ?m1 - D) = {}"
    proof -
      have "a \<notin> set (cells_items h0 (snd (h0 ! a)) ts)" by (rule repr_acyclic[OF ra])
      moreover have "set (cells_items h0 (snd (h0 ! a)) ts) \<inter> (dom m - D) = {}"
        using "1.prems"(4) v by auto
      ultimately show ?thesis by auto
    qed
    from "1.IH"[OF items d inv1 dis] obtain ys m2 h2 where
      c: "deepcopy_items n' ?m1 ?h1 (snd (h0 ! a)) = Some (ys, m2, h2)"
      and inv2: "memo_inv h0 m2 h2 (D \<union> (dom m2 - dom ?m1)) ?Q1"
      and le: "map_le ?m1 m2" and len2: "length ?h1 \<le> length h2"
      and pre: "\<forall>b<length ?h1. h2 ! b = ?h1 ! b"
      and rys: "repr_items h2 ys ts"
      and cys: "set (cells_items h2 ys ts) \<subseteq> {length h0..<length h2} - ?Q1"
      by blast
    let ?h' = "h2[?y := (k, ys)]"
    have dc: "deepcopy n m h v = Some (VRef ?y, m2, ?h')"
      using v None n ah ha k c by simp
    have m2a: "m2 a = Some ?y" using le by (auto simp: map_le_def dom_def)
    have ylt: "?y < length h2" using len2 by simp
    have "\<forall>b\<in>set (cells_items h2 ys ts). b \<noteq> ?y"
      using cys by blast
    then have "\<forall>b\<in>set (cells_items h2 ys ts). ?h' ! b = h2 ! b"
      by (metis nth_list_update_neq)
    from repr_frame(2)[OF rys _ this]
    have fr_items: "repr_items ?h' ys ts \<and> cells_items ?h' ys ts = cells_items h2 ys ts"
      by simp
    have rnew: "repr ?h' (VRef ?y) ?t" using fr_items ylt by simp
    have cnew: "set (cells ?h' (VRef ?y) ?t) \<subseteq> {length h0..<length ?h'} - Q"
      using fr_items cys ylt len Q by auto
    have dom2: "dom m2 - dom m = insert a (dom m2 - dom ?m1)"
      using m2a None by auto
    have inv': "memo_inv h0 m2 ?h' (D \<union> (dom m2 - dom m)) Q"
    proof -
      from inv2 have c1: "length h0 \<le> length ?h'" by (simp add: memo_inv_def)
      from inv2 len have c2: "\<forall>b<length h0. ?h' ! b = h0 ! b"
        by (auto simp: memo_inv_def)
      from Q len2 have c3: "Q \<subseteq> {length h0..<length ?h'}" by auto
      from inv2 m2a D have c4: "D \<union> (dom m2 - dom m) \<subseteq> dom m2"
        by (auto simp: memo_inv_def)
      have c5: "\<forall>a1\<in>D \<union> (dom m2 - dom m). \<forall>t1. repr h0 (VRef a1) t1 \<longrightarrow>
            repr ?h' (VRef (the (m2 a1))) t1
          \<and> set (cells ?h' (VRef (the (m2 a1))) t1) \<subseteq> {length h0..<length ?h'} - Q"
      proof (intro ballI allI impI)
        fix a1 t1 assume a1: "a1 \<in> D \<union> (dom m2 - dom m)" and r1: "repr h0 (VRef a1) t1"
        show "repr ?h' (VRef (the (m2 a1))) t1
            \<and> set (cells ?h' (VRef (the (m2 a1))) t1) \<subseteq> {length h0..<length ?h'} - Q"
        proof (cases "a1 = a")
          case True
          from repr_functional(1)[OF ra r1[unfolded True]] have t1: "t1 = ?t" by simp
          from True m2a have "the (m2 a1) = ?y" by simp
          with rnew cnew show ?thesis unfolding t1 by (simp del: repr.simps cells.simps)
        next
          case False
          with a1 dom2 have "a1 \<in> D \<union> (dom m2 - dom ?m1)" by auto
          with inv2 r1 have rp: "repr h2 (VRef (the (m2 a1))) t1"
            and cl: "set (cells h2 (VRef (the (m2 a1))) t1) \<subseteq> {length h0..<length h2} - ?Q1"
            unfolding memo_inv_def by blast+
          have "\<forall>b\<in>set (cells h2 (VRef (the (m2 a1))) t1). b \<noteq> ?y"
            using cl by blast
          then have "\<forall>b\<in>set (cells h2 (VRef (the (m2 a1))) t1). ?h' ! b = h2 ! b"
            by (metis nth_list_update_neq)
          from repr_frame(1)[OF rp _ this]
          have "repr ?h' (VRef (the (m2 a1))) t1
              \<and> cells ?h' (VRef (the (m2 a1))) t1 = cells h2 (VRef (the (m2 a1))) t1"
            by simp
          with cl show ?thesis by auto
        qed
      qed
      from c1 c2 c3 c4 c5 show ?thesis unfolding memo_inv_def by blast
    qed
    have mle: "map_le m m2" using le None by (auto simp: map_le_def dom_def)
    have lenh: "length h \<le> length ?h'" using len2 by simp
    have preh: "\<forall>b<length h. ?h' ! b = h ! b" using pre by (auto simp: nth_append)
    from dc inv' mle lenh preh rnew cnew show ?thesis by blast
  qed
next
  case 2
  then have "v = VNone" by simp
  with "2.prems"(3) show ?case by (auto simp: map_le_def)
next
  case (3 b)
  then have "v = VBool b" by simp
  with "3.prems"(3) show ?case by (auto simp: map_le_def)
next
  case (4 i)
  then have "v = VInt i" by simp
  with "4.prems"(3) show ?case by (auto simp: map_le_def)
next
  case (5 s)
  then have "v = VStr s" by simp
  with "5.prems"(3) show ?case by (auto simp: map_le_def)
next
  case 6
  then have "vs = []" by (cases vs) auto
  with "6.prems"(3) show ?case by (auto simp: map_le_def)
next
  case (7 t ts)
  from "7.prems"(1) obtain v vs0 where vs: "vs = v # vs0" and rv: "repr h0 v t"
    and rvs: "repr_items h0 vs0 ts"
    by (cases vs) auto
  from "7.prems"(2) have d1: "depth t \<le> n" and d2: "depth_items ts \<le> n" by simp_all
  note inv = "7.prems"(3)
  from "7.prems"(4) vs have dis1: "set (cells h0 v t) \<inter> (dom m - D) = {}"
    and dis2: "set (cells_items h0 vs0 ts) \<inter> (dom m - D) = {}"
    by auto
  from "7.IH"(1)[OF rv d1 inv dis1] obtain v' m1 h1 where
    c1: "deepcopy n m h v = Some (v', m1, h1)"
    and inv1: "memo_inv h0 m1 h1 (D \<union> (dom m1 - dom m)) Q"
    and le1: "map_le m m1" and len1: "length h \<le> length h1"
    and pre1: "\<forall>b<length h. h1 ! b = h ! b"
    and r1: "repr h1 v' t" and cl1: "set (cells h1 v' t) \<subseteq> {length h0..<length h1} - Q"
    by blast
  have sub1: "dom m \<subseteq> dom m1" using le1 by (rule map_le_implies_dom_le)
  have dis2': "set (cells_items h0 vs0 ts) \<inter> (dom m1 - (D \<union> (dom m1 - dom m))) = {}"
    using dis2 sub1 by auto
  from "7.IH"(2)[OF rvs d2 inv1 dis2'] obtain vs' m2 h2 where
    c2: "deepcopy_items n m1 h1 vs0 = Some (vs', m2, h2)"
    and inv2: "memo_inv h0 m2 h2 ((D \<union> (dom m1 - dom m)) \<union> (dom m2 - dom m1)) Q"
    and le2: "map_le m1 m2" and len2: "length h1 \<le> length h2"
    and pre2: "\<forall>b<length h1. h2 ! b = h1 ! b"
    and r2: "repr_items h2 vs' ts"
    and cl2: "set (cells_items h2 vs' ts) \<subseteq> {length h0..<length h2} - Q"
    by blast
  have sub2: "dom m1 \<subseteq> dom m2" using le2 by (rule map_le_implies_dom_le)
  have Deq: "(D \<union> (dom m1 - dom m)) \<union> (dom m2 - dom m1) = D \<union> (dom m2 - dom m)"
    using sub1 sub2 by auto
  have dc: "deepcopy_items n m h vs = Some (v' # vs', m2, h2)" using vs c1 c2 by simp
  from repr_prefix[OF r1 len2 pre2]
  have r1': "repr h2 v' t" and ce: "cells h2 v' t = cells h1 v' t" by auto
  have rr: "repr_items h2 (v' # vs') (t # ts)" using r1' r2 by simp
  have cc: "set (cells_items h2 (v' # vs') (t # ts)) \<subseteq> {length h0..<length h2} - Q"
    using ce cl1 cl2 len2 by auto
  have mle: "map_le m m2" using le1 le2 by (rule map_le_trans)
  have lenh: "length h \<le> length h2" using len1 len2 by simp
  have preh: "\<forall>b<length h. h2 ! b = h ! b" using pre1 pre2 len1 by auto
  from dc inv2[unfolded Deq] mle lenh preh rr cc show ?case by blast
qed

lemma deepcopy_fresh:
  assumes "repr h v t" and "depth t \<le> n"
  shows "\<exists>v' m' h'. deepcopy n Map.empty h v = Some (v', m', h')
          \<and> length h \<le> length h' \<and> (\<forall>b<length h. h' ! b = h ! b)
          \<and> repr h' v' t \<and> set (cells h' v' t) \<subseteq> {length h..<length h'}"
proof -
  have inv: "memo_inv h Map.empty h {} {}" by (simp add: memo_inv_def)
  have dis: "set (cells h v t) \<inter> (dom (Map.empty :: nat \<Rightarrow> nat option) - {}) = {}" by simp
  from deepcopy_correct(1)[OF assms inv dis] show ?thesis by auto
qed

lemma repr_update_fresh:
  assumes "repr h v t" and "length h \<le> length h'" and "\<forall>b<length h. h' ! b = h ! b"
    and "length h \<le> a"
  shows "repr (h'[a := ob]) v t"
proof -
  have "\<forall>b<length h. h'[a := ob] ! b = h ! b" using assms(3,4) by simp
  with repr_prefix[OF assms(1), of "h'[a := ob]"] assms(2) show ?thesis by simp
qed

lemma example_namespace: "namespace example_requestor = ''http://api/depth''"
  by (simp add: namespace_def example_requestor_def Requestor_init_def example_client_def
      AsyncClient_init_def)

lemma example_required: "has_required_params example_requestor = (True, [])"
  by (simp add: has_required_params_def example_requestor_def Requestor_init_def)

lemma await_tasks_Raise:
  "await_tasks d ts = (Raise e, ts', d', evs) \<Longrightarrow>
     e = RuntimeError ''cannot reuse already awaited coroutine''"
  by (induction ts arbitrary: d ts' d' evs) (auto split: if_splits prod.splits)

lemma fetch_encoded_Raise:
  "fetch_encoded d ns f ps sv = (Raise e, d', evs) \<Longrightarrow> f ps = Raise e"
  by (auto simp: fetch_encoded_def split: option.splits outcome.splits if_splits)

lemma has_required_params_iff:
  "fst (has_required_params r) = (\<forall>p\<in>set (required_params r). params r p \<noteq> None)"
  by (simp add: has_required_params_def list_all_iff)

text \<open>
  C4. When a required parameter is missing, \<open>request\<close> raises
  \<open>RuntimeError("Required params not set")\<close>, leaves the requestor, the cache and the
  store as they were and does nothing but log: no pre-task is awaited, nothing is fetched.
  When every required parameter is present, and the compute function does not itself raise
  that error, \<open>request\<close> does not raise it.
\<close>

theorem request_requires_params:
  "((\<exists>p\<in>set (required_params (self w)). params (self w) p = None) \<longrightarrow>
      Requestor_request f k w =
        (Raise (RuntimeError ''Required params not set''), w,
         map (\<lambda>p. LogError (''Missing required param: '' @ p))
           (filter (\<lambda>p. params (self w) p = None) (required_params (self w))))
      \<and> list_all is_log (snd (snd (Requestor_request f k w))))
   \<and> ((\<forall>p\<in>set (required_params (self w)). params (self w) p \<noteq> None)
        \<and> f (params (self w)) \<noteq> Raise (RuntimeError ''Required params not set'') \<longrightarrow>
      fst (Requestor_request f k w) \<noteq> Raise (RuntimeError ''Required params not set''))"
proof (intro conjI impI)
  assume m: "\<exists>p\<in>set (required_params (self w)). params (self w) p = None"
  then have n: "\<not> fst (has_required_params (self w))"
    by (simp add: has_required_params_iff)
  then show eq: "Requestor_request f k w =
        (Raise (RuntimeError ''Required params not set''), w,
         map (\<lambda>p. LogError (''Missing required param: '' @ p))
           (filter (\<lambda>p. params (self w) p = None) (required_params (self w))))"
    by (simp add: Requestor_request_def) (simp add: has_required_params_def)
  show "list_all is_log (snd (snd (Requestor_request f k w)))"
    by (simp add: eq list_all_iff)
next
  assume a: "(\<forall>p\<in>set (required_params (self w)). params (self w) p \<noteq> None)
        \<and> f (params (self w)) \<noteq> Raise (RuntimeError ''Required params not set'')"
  then have ok: "fst (has_required_params (self w))"
    by (simp add: has_required_params_iff)
  show "fst (Requestor_request f k w) \<noteq> Raise (RuntimeError ''Required params not set'')"
  proof
    assume r: "fst (Requestor_request f k w) = Raise (RuntimeError ''Required params not set'')"
    obtain tr ts d1 evs where t: "run_async_tasks w = (tr, ts, d1, evs)"
      by (cases "run_async_tasks w") auto
    show False
    proof (cases tr)
      case (Raise e)
      with t have "e = RuntimeError ''cannot reuse already awaited coroutine''"
        by (auto simp: run_async_tasks_def split: if_splits dest: await_tasks_Raise)
      with r ok t Raise show False by (simp add: Requestor_request_def)
    next
      case Hang
      with r ok t show False by (simp add: Requestor_request_def)
    next
      case (Return u)
      obtain fr d2 fevs where fe: "fetch_encoded d1 (namespace (self w)) f (params (self w))
          (save_flag (self w)) = (fr, d2, fevs)"
        by (cases "fetch_encoded d1 (namespace (self w)) f (params (self w)) (save_flag (self w))")
          auto
      show False
      proof (cases fr)
        case (Raise e)
        with fe have "f (params (self w)) = Raise e" by (auto dest: fetch_encoded_Raise)
        with a have "e \<noteq> RuntimeError ''Required params not set''" by auto
        with r ok t Return fe Raise show False by (simp add: Requestor_request_def)
      next
        case Hang
        with r ok t Return fe show False by (simp add: Requestor_request_def)
      next
        case (Return resp)
        with r ok t \<open>tr = Return u\<close> fe show False
          by (auto simp: Requestor_request_def split: if_splits option.splits)
      qed
    qed
  qed
qed

text \<open>A requestor that needs \<open>symbol\<close>, without it and with it.\<close>

theorem request_requires_params_witness:
  "required_params (self (example_world\<lparr>self := example_requestor\<lparr>params := Map.empty\<rparr>\<rparr>))
     = [''symbol'']
   \<and> params (self (example_world\<lparr>self := example_requestor\<lparr>params := Map.empty\<rparr>\<rparr>)) ''symbol''
     = None
   \<and> Requestor_request seven_func 1 (example_world\<lparr>self := example_requestor\<lparr>params := Map.empty\<rparr>\<rparr>)
      = (Raise (RuntimeError ''Required params not set''),
         example_world\<lparr>self := example_requestor\<lparr>params := Map.empty\<rparr>\<rparr>,
         [LogError ''Missing required param: symbol''])
   \<and> required_params (self example_world) = [''symbol'']
   \<and> params (self example_world) ''symbol'' = Some (VStr ''BTC'')
   \<and> seven_func (params (self example_world)) = Return (VInt 7)
   \<and> fst (Requestor_request seven_func 1 example_world)
        \<noteq> Raise (RuntimeError ''Required params not set'')"
  using request_requires_params
      [of "example_world\<lparr>self := example_requestor\<lparr>params := Map.empty\<rparr>\<rparr>" seven_func 1]
    request_requires_params [of example_world seven_func 1]
  by (simp add: example_world_def example_requestor_def Requestor_init_def seven_func_def)

text \<open>
  C5. Let the required parameters be present, the pre-tasks return, the fetch yield
  \<open>resp\<close>, and the default value have the structure \<open>t\<close>, no deeper than
  \<open>deepcopy\<close> may go. If \<open>resp\<close> is truthy, \<open>request\<close> returns \<open>resp\<close> itself and
  the store is untouched. If \<open>resp\<close> is falsy (\<open>None\<close>, \<open>False\<close>, zero, or an empty
  string, list or dictionary), \<open>request\<close> returns a value of structure \<open>t\<close> made of objects
  that did not exist before, the stored default still has structure \<open>t\<close>, and writing
  anything to any object of the returned value leaves the default with structure \<open>t\<close>.
\<close>

theorem request_default_copy:
  assumes req: "fst (has_required_params (self w))"
    and tasks: "run_async_tasks w = (Return (), ts, d1, evs)"
    and fetch: "fetch_encoded d1 (namespace (self w)) f (params (self w)) (save_flag (self w))
                  = (Return resp, d2, fevs)"
    and dflt: "repr (mem w) (default_return_value (self w)) t"
    and deep: "depth t \<le> k"
  shows "(truthy (mem w) resp \<longrightarrow>
            fst (Requestor_request f k w) = Return resp
          \<and> mem (fst (snd (Requestor_request f k w))) = mem w)
       \<and> (\<not> truthy (mem w) resp \<longrightarrow>
            (\<exists>v'. fst (Requestor_request f k w) = Return v'
               \<and> repr (mem (fst (snd (Requestor_request f k w)))) v' t
               \<and> default_return_value (self (fst (snd (Requestor_request f k w))))
                   = default_return_value (self w)
               \<and> repr (mem (fst (snd (Requestor_request f k w)))) (default_return_value (self w)) t
               \<and> (\<forall>a\<in>set (cells (mem (fst (snd (Requestor_request f k w)))) v' t).
                    length (mem w) \<le> a
                  \<and> (\<forall>ob. repr ((mem (fst (snd (Requestor_request f k w))))[a := ob])
                             (default_return_value (self w)) t))))"
proof (intro conjI impI)
  assume "truthy (mem w) resp"
  with req tasks fetch
  show "fst (Requestor_request f k w) = Return resp"
    and "mem (fst (snd (Requestor_request f k w))) = mem w"
    by (simp_all add: Requestor_request_def)
next
  assume falsy: "\<not> truthy (mem w) resp"
  from deepcopy_fresh[OF dflt deep] obtain v' m' h' where
    dc: "deepcopy k Map.empty (mem w) (default_return_value (self w)) = Some (v', m', h')"
    and len: "length (mem w) \<le> length h'" and pre: "\<forall>b<length (mem w). h' ! b = mem w ! b"
    and rp: "repr h' v' t"
    and fr: "set (cells h' v' t) \<subseteq> {length (mem w)..<length h'}"
    by blast
  from req tasks fetch falsy dc
  have res: "Requestor_request f k w =
      (Return v', w\<lparr>self := (self w)\<lparr>async_tasks := ts\<rparr>, dbm := d2, mem := h'\<rparr>,
       snd (has_required_params (self w)) @ evs @ fevs)"
    by (simp add: Requestor_request_def)
  have "\<forall>a\<in>set (cells h' v' t). length (mem w) \<le> a
          \<and> (\<forall>ob. repr (h'[a := ob]) (default_return_value (self w)) t)"
    using fr repr_update_fresh[OF dflt len pre] by auto
  with rp repr_prefix[OF dflt len pre]
  show "\<exists>v'. fst (Requestor_request f k w) = Return v'
               \<and> repr (mem (fst (snd (Requestor_request f k w)))) v' t
               \<and> default_return_value (self (fst (snd (Requestor_request f k w))))
                   = default_return_value (self w)
               \<and> repr (mem (fst (snd (Requestor_request f k w)))) (default_return_value (self w)) t
               \<and> (\<forall>a\<in>set (cells (mem (fst (snd (Requestor_request f k w)))) v' t).
                    length (mem w) \<le> a
                  \<and> (\<forall>ob. repr ((mem (fst (snd (Requestor_request f k w))))[a := ob])
                             (default_return_value (self w)) t))"
    by (simp add: res)
qed

lemma example_tasks: "run_async_tasks example_world = (Return (), [], Map.empty, [])"
  by (simp add: run_async_tasks_def example_world_def example_requestor_def Requestor_init_def)

lemma example_fetch_none:
  "fetch_encoded Map.empty (namespace (self example_world)) none_func
     (params (self example_world)) (save_flag (self example_world))
   = (Return VNone, Map.empty((''http://api/depth'', [''symbol'' \<mapsto> VStr ''BTC'']) \<mapsto> VNone),
      [FetchEncoded ''http://api/depth'', RequestFunc, StoreEncoded ''http://api/depth''])"
  by (simp add: fetch_encoded_def none_func_def example_world_def example_namespace)
     (simp add: example_requestor_def Requestor_init_def)

text \<open>
  The default is an empty list and the compute function yields \<open>None\<close>: the result is a
  second empty list, and appending to it leaves the default empty.
\<close>

theorem request_default_copy_witness:
  "fst (has_required_params (self example_world))
   \<and> repr (mem example_world) (default_return_value (self example_world)) (TObj ListObj [])
   \<and> depth (TObj ListObj []) \<le> 1
   \<and> \<not> truthy (mem example_world) VNone
   \<and> fst (Requestor_request none_func 1 example_world) = Return (VRef 1)
   \<and> mem (fst (snd (Requestor_request none_func 1 example_world)))
        = [(ListObj, []), (ListObj, [])]
   \<and> repr ((mem (fst (snd (Requestor_request none_func 1 example_world))))[1 := (ListObj, [VInt 5])])
        (default_return_value (self example_world)) (TObj ListObj [])"
proof -
  have r: "fst (has_required_params (self example_world))"
    by (simp add: example_world_def example_required)
  have d: "repr (mem example_world) (default_return_value (self example_world)) (TObj ListObj [])"
    by (simp add: example_world_def example_requestor_def Requestor_init_def)
  have k: "depth (TObj ListObj []) \<le> 1" by simp
  have res: "Requestor_request none_func 1 example_world =
     (Return (VRef 1),
      example_world\<lparr>self := (self example_world)\<lparr>async_tasks := []\<rparr>,
        dbm := Map.empty((''http://api/depth'', [''symbol'' \<mapsto> VStr ''BTC'']) \<mapsto> VNone),
        mem := [(ListObj, []), (ListObj, [])]\<rparr>,
      [FetchEncoded ''http://api/depth'', RequestFunc, StoreEncoded ''http://api/depth''])"
  proof -
    have hr: "has_required_params (self example_world) = (True, [])"
      by (simp add: example_world_def example_required)
    have dv: "default_return_value (self example_world) = VRef 0"
      by (simp add: example_world_def example_requestor_def Requestor_init_def)
    have m: "mem example_world = [(ListObj, [])]"
      by (simp add: example_world_def)
    show ?thesis
      by (simp add: Requestor_request_def hr example_tasks example_fetch_none dv m)
  qed
  have f: "\<not> truthy (mem example_world) VNone" by simp
  have v: "fst (Requestor_request none_func 1 example_world) = Return (VRef 1)"
    using res by simp
  have m: "mem (fst (snd (Requestor_request none_func 1 example_world)))
        = [(ListObj, []), (ListObj, [])]"
    using res by simp
  have u: "repr ([(ListObj, []), (ListObj, [])][1 := (ListObj, [VInt 5])])
        (default_return_value (self example_world)) (TObj ListObj [])"
    by (simp add: example_world_def example_requestor_def Requestor_init_def)
  from request_default_copy[OF r example_tasks example_fetch_none d k] r d k f v u
  show ?thesis unfolding m by blast
qed

lemma fetch_encoded_saved:
  "fetch_encoded d ns f ps True = (Return x, d2, evs) \<Longrightarrow> d2 (ns, ps) = Some x"
  by (auto simp: fetch_encoded_def split: option.splits outcome.splits)

lemma request_Return:
  assumes "Requestor_request f k w = (Return v, w1, evs)"
  shows "\<exists>ts d1 evs1 resp d2 fevs.
           run_async_tasks w = (Return (), ts, d1, evs1)
         \<and> fetch_encoded d1 (namespace (self w)) f (params (self w)) (save_flag (self w))
             = (Return resp, d2, fevs)
         \<and> self w1 = (self w)\<lparr>async_tasks := ts\<rparr> \<and> dbm w1 = d2
         \<and> (truthy (mem w) resp \<longrightarrow> v = resp \<and> mem w1 = mem w)"
proof -
  from assms have ok: "fst (has_required_params (self w))"
    by (auto simp: Requestor_request_def split: if_splits)
  obtain tr ts d1 evs1 where t: "run_async_tasks w = (tr, ts, d1, evs1)"
    by (cases "run_async_tasks w") auto
  from assms ok t have tr: "tr = Return ()"
    by (cases tr) (auto simp: Requestor_request_def)
  obtain fr d2 fevs where fe: "fetch_encoded d1 (namespace (self w)) f (params (self w))
          (save_flag (self w)) = (fr, d2, fevs)"
    by (cases "fetch_encoded d1 (namespace (self w)) f (params (self w)) (save_flag (self w))")
      auto
  from assms ok t tr fe obtain resp where fr: "fr = Return resp"
    by (cases fr) (auto simp: Requestor_request_def)
  from assms ok t tr fe fr
  have "self w1 = (self w)\<lparr>async_tasks := ts\<rparr> \<and> dbm w1 = d2
         \<and> (truthy (mem w) resp \<longrightarrow> v = resp \<and> mem w1 = mem w)"
    by (auto simp: Requestor_request_def split: if_splits option.splits)
  with t tr fe fr show ?thesis by blast
qed

text \<open>
  C7, as amended. After a \<open>request\<close> with saving enabled has returned, the cache holds for
  the namespace and the parameters the value \<open>x\<close> the fetch yielded (which is the value
  \<open>request\<close> returned when it is truthy); a following \<open>request_only\<close> finds the entry,
  awaits no pre-task, fetches nothing, leaves the requestor, the cache and the store as they
  are, and returns \<open>None\<close>, not the stored value.
\<close>

theorem request_only_after_request:
  assumes "Requestor_request f k w = (Return v, w1, evs)" and "save_flag (self w)"
  shows "\<exists>x. dbm w1 (namespace (self w1), params (self w1)) = Some x
            \<and> (truthy (mem w) x \<longrightarrow> v = x)
            \<and> request_only f' k' w1 = (Return VNone, w1, [ContainsEncoded (namespace (self w1))])"
proof -
  from request_Return[OF assms(1)] obtain ts d1 evs1 resp d2 fevs where
    fe: "fetch_encoded d1 (namespace (self w)) f (params (self w)) (save_flag (self w))
             = (Return resp, d2, fevs)"
    and s: "self w1 = (self w)\<lparr>async_tasks := ts\<rparr>" and d: "dbm w1 = d2"
    and v: "truthy (mem w) resp \<longrightarrow> v = resp \<and> mem w1 = mem w"
    by blast
  from fe assms(2) have st: "d2 (namespace (self w), params (self w)) = Some resp"
    by (auto dest: fetch_encoded_saved)
  have ns: "namespace (self w1) = namespace (self w)" and ps: "params (self w1) = params (self w)"
    by (simp_all add: s namespace_def)
  have "request_only f' k' w1 = (Return VNone, w1, [ContainsEncoded (namespace (self w1))])"
    using st d ns ps by (simp add: request_only_def contains_encoded_def)
  with st d ns ps v show ?thesis by auto
qed

lemma example_fetch_seven:
  "fetch_encoded Map.empty (namespace (self example_world)) seven_func
     (params (self example_world)) (save_flag (self example_world))
   = (Return (VInt 7),
      Map.empty((namespace (self example_world), params (self example_world)) \<mapsto> VInt 7),
      [FetchEncoded ''http://api/depth'', RequestFunc, StoreEncoded ''http://api/depth''])"
  by (simp add: fetch_encoded_def seven_func_def example_world_def example_namespace)
     (simp add: example_requestor_def Requestor_init_def)

lemma example_request_seven:
  "Requestor_request seven_func 1 example_world =
     (Return (VInt 7),
      example_world\<lparr>self := (self example_world)\<lparr>async_tasks := []\<rparr>,
        dbm := Map.empty((namespace (self example_world), params (self example_world))
                  \<mapsto> VInt 7)\<rparr>,
      [FetchEncoded ''http://api/depth'', RequestFunc, StoreEncoded ''http://api/depth''])"
proof -
  have hr: "has_required_params (self example_world) = (True, [])"
    by (simp add: example_world_def example_required)
  show ?thesis
    by (simp add: Requestor_request_def hr example_tasks example_fetch_seven)
qed

text \<open>The compute function yields 7, which is stored.\<close>

theorem request_only_after_request_witness:
  "save_flag (self example_world)
   \<and> fst (Requestor_request seven_func 1 example_world) = Return (VInt 7)
   \<and> (\<exists>x. dbm (fst (snd (Requestor_request seven_func 1 example_world)))
            (namespace (self (fst (snd (Requestor_request seven_func 1 example_world)))),
             params (self (fst (snd (Requestor_request seven_func 1 example_world))))) = Some x
          \<and> request_only none_func 0 (fst (snd (Requestor_request seven_func 1 example_world)))
             = (Return VNone, fst (snd (Requestor_request seven_func 1 example_world)),
                [ContainsEncoded (namespace
                   (self (fst (snd (Requestor_request seven_func 1 example_world)))))]))"
proof -
  have sv: "save_flag (self example_world)"
    by (simp add: example_world_def example_requestor_def Requestor_init_def)
  have r: "fst (Requestor_request seven_func 1 example_world) = Return (VInt 7)"
    using example_request_seven by simp
  from request_only_after_request[OF example_request_seven sv, of none_func 0] sv r
  show ?thesis unfolding example_request_seven by (auto simp: namespace_def)
qed

text \<open>
  C7 as stated: 7 is stored by the \<open>request\<close>, and \<open>request_only\<close> returns \<open>None\<close>.
\<close>

theorem request_only_roundtrip_counterexample:
  "save_flag (self example_world)
   \<and> fst (Requestor_request seven_func 1 example_world) = Return (VInt 7)
   \<and> dbm (fst (snd (Requestor_request seven_func 1 example_world)))
        (namespace (self example_world), params (self example_world)) = Some (VInt 7)
   \<and> fst (request_only seven_func 1 (fst (snd (Requestor_request seven_func 1 example_world))))
        = Return VNone
   \<and> fst (request_only seven_func 1 (fst (snd (Requestor_request seven_func 1 example_world))))
        \<noteq> Return (VInt 7)"
proof -
  have sv: "save_flag (self example_world)"
    by (simp add: example_world_def example_requestor_def Requestor_init_def)
  have ro: "fst (request_only seven_func 1
      (example_world\<lparr>self := (self example_world)\<lparr>async_tasks := []\<rparr>,
        dbm := Map.empty((namespace (self example_world), params (self example_world))
                  \<mapsto> VInt 7)\<rparr>)) = Return VNone"
    by (simp add: request_only_def contains_encoded_def namespace_def)
  show ?thesis unfolding example_request_seven using sv ro by simp
qed

lemma queued_tasks:
  "async_tasks (self queued_world) =
     [\<lparr>co_namespace = ''http://api/depth'', co_params = params example_requestor,
       awaited = False\<rparr>]"
  by (simp add: queued_world_def delete_from_db_def example_required example_namespace)
     (simp add: example_requestor_def Requestor_init_def)

lemma queued_self:
  "self queued_world = example_requestor\<lparr>async_tasks :=
     [\<lparr>co_namespace = ''http://api/depth'', co_params = params example_requestor,
       awaited = False\<rparr>]\<rparr>"
  by (simp add: queued_world_def delete_from_db_def example_required example_namespace)
     (simp add: example_requestor_def Requestor_init_def)

text \<open>
  C6 fails on the code. With one deletion queued, the first \<open>request\<close> awaits it and
  returns; the queue still holds the coroutine, now used up; the second \<open>request\<close>
  awaits it again and raises before anything is fetched.
\<close>

theorem second_request_reuses_coroutine:
  "async_tasks (self queued_world) =
     [\<lparr>co_namespace = ''http://api/depth'', co_params = params example_requestor,
       awaited = False\<rparr>]
   \<and> fst (Requestor_request seven_func 1 queued_world) = Return (VInt 7)
   \<and> async_tasks (self (fst (snd (Requestor_request seven_func 1 queued_world)))) =
     [\<lparr>co_namespace = ''http://api/depth'', co_params = params example_requestor,
       awaited = True\<rparr>]
   \<and> Requestor_request seven_func 1 (fst (snd (Requestor_request seven_func 1 queued_world)))
      = (Raise (RuntimeError ''cannot reuse already awaited coroutine''),
         fst (snd (Requestor_request seven_func 1 queued_world)),
         [Await ''http://api/depth''])"
proof -
  have hr: "has_required_params (self queued_world) = (True, [])"
    by (simp add: queued_self has_required_params_def example_requestor_def Requestor_init_def)
  have ns: "namespace (self queued_world) = ''http://api/depth''"
    using example_namespace by (simp add: queued_self namespace_def)
  have d: "dbm queued_world = Map.empty" by (simp add: queued_world_def example_world_def)
  have t: "run_async_tasks queued_world =
     (Return (), [\<lparr>co_namespace = ''http://api/depth'', co_params = params example_requestor,
       awaited = True\<rparr>], Map.empty, [Await ''http://api/depth''])"
    by (simp add: run_async_tasks_def queued_tasks d delete_encoded_def)
  have fe: "fetch_encoded Map.empty ''http://api/depth'' seven_func (params (self queued_world))
      (save_flag (self queued_world)) =
      (Return (VInt 7), Map.empty((''http://api/depth'', params (self queued_world)) \<mapsto> VInt 7),
       [FetchEncoded ''http://api/depth'', RequestFunc, StoreEncoded ''http://api/depth''])"
    by (simp add: fetch_encoded_def seven_func_def queued_self)
       (simp add: example_requestor_def Requestor_init_def)
  have first: "Requestor_request seven_func 1 queued_world =
     (Return (VInt 7),
      queued_world\<lparr>self := (self queued_world)\<lparr>async_tasks :=
          [\<lparr>co_namespace = ''http://api/depth'', co_params = params example_requestor,
            awaited = True\<rparr>]\<rparr>,
        dbm := Map.empty((''http://api/depth'', params (self queued_world)) \<mapsto> VInt 7)\<rparr>,
      [Await ''http://api/depth'', FetchEncoded ''http://api/depth'', RequestFunc,
       StoreEncoded ''http://api/depth''])"
    by (simp add: Requestor_request_def hr t ns fe)
  define w1 where "w1 = queued_world\<lparr>self := (self queued_world)\<lparr>async_tasks :=
          [\<lparr>co_namespace = ''http://api/depth'', co_params = params example_requestor,
            awaited = True\<rparr>]\<rparr>,
        dbm := Map.empty((''http://api/depth'', params (self queued_world)) \<mapsto> VInt 7)\<rparr>"
  have s1: "self w1 = (self queued_world)\<lparr>async_tasks :=
          [\<lparr>co_namespace = ''http://api/depth'', co_params = params example_requestor,
            awaited = True\<rparr>]\<rparr>"
    by (simp add: w1_def)
  have hr1: "has_required_params (self w1) = (True, [])"
    using hr by (simp add: s1 has_required_params_def)
  have at: "async_tasks (self w1) =
          [\<lparr>co_namespace = ''http://api/depth'', co_params = params example_requestor,
            awaited = True\<rparr>]"
    by (simp add: s1)
  have same: "w1\<lparr>self := (self w1)\<lparr>async_tasks :=
          [\<lparr>co_namespace = ''http://api/depth'', co_params = params example_requestor,
            awaited = True\<rparr>]\<rparr>, dbm := dbm w1\<rparr> = w1"
    by (simp add: w1_def)
  have second: "Requestor_request seven_func 1 w1 =
      (Raise (RuntimeError ''cannot reuse already awaited coroutine''), w1,
       [Await ''http://api/depth''])"
    by (simp add: Requestor_request_def hr1 run_async_tasks_def at same)
  show ?thesis unfolding first using queued_tasks second by (simp add: w1_def)
qed

end
